theory Spec2Isabelle
  imports Main "HOL-Library.Sublist" "HOL-Library.AList"
begin

section \<open>Library functions used by the client\<close>

text \<open>
  Go strings are byte sequences, as \<^typ>\<open>string\<close> is. The functions of the Go standard
  library that the client calls are written out on bytes.

  \<^verbatim>\<open>strings.Contains(s, substr)\<close>: \<open>substr\<close> occurs in \<open>s\<close>.
\<close>

fun strings_Contains :: "string \<Rightarrow> string \<Rightarrow> bool" where
  "strings_Contains [] substr = (substr = [])"
| "strings_Contains (c # cs) substr = (prefix substr (c # cs) \<or> strings_Contains cs substr)"


text \<open>
  \<^verbatim>\<open>strings.SplitN(s, sep, 2)\<close> for a separator of one byte: the text before the first
  separator and the text after it, or \<open>s\<close> alone when it holds no separator.
\<close>

definition strings_SplitN2 :: "string \<Rightarrow> char \<Rightarrow> string list" where
  "strings_SplitN2 s sep =
     (if sep \<in> set s
      then [takeWhile (\<lambda>c. c \<noteq> sep) s, drop 1 (dropWhile (\<lambda>c. c \<noteq> sep) s)]
      else [s])"

text \<open>
  \<^verbatim>\<open>strings.ToLower\<close> on ASCII text: the bytes \<open>A\<close> to \<open>Z\<close> move to \<open>a\<close> to
  \<open>z\<close>, every other byte stays. (Go also maps letters beyond ASCII; filter names are
  ASCII words, and no general statement below depends on what the function does to a
  byte.)
\<close>

definition lower_byte :: "char \<Rightarrow> char" where
  "lower_byte c =
     (case map_of (zip ''ABCDEFGHIJKLMNOPQRSTUVWXYZ'' ''abcdefghijklmnopqrstuvwxyz'') c of
        None \<Rightarrow> c
      | Some l \<Rightarrow> l)"

definition strings_ToLower :: "string \<Rightarrow> string" where
  "strings_ToLower s = map lower_byte s"

text \<open>\<^verbatim>\<open>strings.Join(elems, sep)\<close>.\<close>

fun strings_Join :: "string list \<Rightarrow> string \<Rightarrow> string" where
  "strings_Join [] sep = []"
| "strings_Join [x] sep = x"
| "strings_Join (x # y # ys) sep = x @ sep @ strings_Join (y # ys) sep"

text \<open>
  A Go \<^verbatim>\<open>map[string]V\<close> is an association list with one pair for each key. The order of
  the pairs is the order in which a \<^verbatim>\<open>range\<close> loop meets them, which Go leaves open:
  a statement about every association list is a statement about every iteration order.
  Reading a key that is absent gives the zero value of \<open>V\<close>.
\<close>

definition lookup_str :: "(string \<times> string) list \<Rightarrow> string \<Rightarrow> string" where
  "lookup_str m k = (case map_of m k of None \<Rightarrow> [] | Some v \<Rightarrow> v)"

definition lookup_list :: "(string \<times> string list) list \<Rightarrow> string \<Rightarrow> string list" where
  "lookup_list m k = (case map_of m k of None \<Rightarrow> [] | Some v \<Rightarrow> v)"

text \<open>\<^verbatim>\<open>m[k] = append(m[k], v)\<close> on a \<^verbatim>\<open>map[string][]string\<close>.\<close>

definition append_value ::
  "(string \<times> string list) list \<Rightarrow> string \<Rightarrow> string \<Rightarrow> (string \<times> string list) list" where
  "append_value m k v = AList.update k (lookup_list m k @ [v]) m"

section \<open>utils: run statuses and filter parsing\<close>

text \<open>\<^verbatim>\<open>GetRunStatuses(includeDeleted)\<close>.\<close>

definition GetRunStatuses :: "bool \<Rightarrow> string list" where
  "GetRunStatuses includeDeleted =
     (let runStatuses =
        [''created'', ''running'', ''finished'', ''failed'', ''stopped'', ''queued'', ''pending'']
      in if includeDeleted then runStatuses @ [''deleted''] else runStatuses)"

text \<open>
  \<^verbatim>\<open>ParseFilterParameters\<close> leaves through \<^verbatim>\<open>os.Exit(1)\<close> at three places, each after
  printing a message. One constructor stands for each place and carries what the message
  is formatted with; \<open>exit_output\<close> is the text printed before the exit.
\<close>

datatype exit =
    WrongInputFormat
  | FilterNotValid string
  | StatusNotValid string

fun exit_output :: "exit \<Rightarrow> string" where
  "exit_output WrongInputFormat =
     ''Error: Wrong input format. Please use --filter filter_name=filter_value'' @ [CHR 0x0A]"
| "exit_output (FilterNotValid filterName) = ''Error: Filter '' @ filterName @ '' is not valid''"
| "exit_output (StatusNotValid filterValue) =
     ''Error: Input status value '' @ filterValue @ '' is not valid. ''"

text \<open>
  The loop over the tokens. \<open>statusFilters\<close> and \<open>searchFilters\<close> are the two
  accumulators of the source.
\<close>

fun ParseFilterParameters_loop ::
  "string list \<Rightarrow> string list \<Rightarrow> string list \<Rightarrow> (string \<times> string list) list
     \<Rightarrow> exit + (string list \<times> (string \<times> string list) list)" where
  "ParseFilterParameters_loop [] filterNames statusFilters searchFilters =
     Inr (statusFilters, searchFilters)"
| "ParseFilterParameters_loop (v # rest) filterNames statusFilters searchFilters =
     (if \<not> strings_Contains v ''='' then Inl WrongInputFormat
      else
        let filterNameAndValue = strings_SplitN2 v (CHR ''='');
            filterName = strings_ToLower (filterNameAndValue ! 0);
            filterValue = filterNameAndValue ! 1
        in if filterName \<notin> set filterNames then Inl (FilterNotValid filterName)
           else if filterName = ''status'' \<and> filterValue \<notin> set (GetRunStatuses True)
             then Inl (StatusNotValid filterValue)
           else if filterName = ''status''
             then ParseFilterParameters_loop rest filterNames
                    (statusFilters @ [filterValue]) searchFilters
           else ParseFilterParameters_loop rest filterNames statusFilters
                  (append_value searchFilters filterName filterValue))"

text \<open>
  \<^verbatim>\<open>json.Marshal\<close> belongs to the Go standard library and is taken as the parameter
  \<open>json_Marshal\<close>. On a \<^verbatim>\<open>map[string][]string\<close> it returns no error, so the exit after
  it is never taken and the parameter returns the text alone.
\<close>

definition ParseFilterParameters ::
  "((string \<times> string list) list \<Rightarrow> string) \<Rightarrow> string list \<Rightarrow> string list
     \<Rightarrow> exit + (string list \<times> string)" where
  "ParseFilterParameters json_Marshal flt filterNames =
     (case ParseFilterParameters_loop flt filterNames [] [] of
        Inl e \<Rightarrow> Inl e
      | Inr (statusFilters, searchFilters) \<Rightarrow>
          Inr (statusFilters,
               if length searchFilters > 0 then json_Marshal searchFilters else []))"

text \<open>
  An instance of the parameter for concrete evaluations: the JSON object written with keys
  and values as they stand, which is what \<^verbatim>\<open>json.Marshal\<close> prints for text that needs no
  escape and keys that already are in order.
\<close>

definition json_quote :: "string \<Rightarrow> string" where
  "json_quote s = [CHR 0x22] @ s @ [CHR 0x22]"

definition json_plain :: "(string \<times> string list) list \<Rightarrow> string" where
  "json_plain m =
     ''{'' @ strings_Join
       (map (\<lambda>(k, vs). json_quote k @ '':['' @ strings_Join (map json_quote vs) '','' @ '']'') m)
       '','' @ ''}''"

section \<open>utils: the column projector\<close>

text \<open>
  \<^verbatim>\<open>FormatData\<close> works in place on a header and a row matrix; the model passes both
  through and returns them. Every row is taken to be a slice of its own, as the rows that
  the display functions build with \<^verbatim>\<open>append\<close> are, so a row is a list value. A cell is of type
  \<^verbatim>\<open>any\<close>: the cell type is left open, and \<^verbatim>\<open>fmt.Sprint\<close> on it is the parameter
  \<open>Sprint\<close>. Reading or slicing a row beyond its length panics.
\<close>

datatype panic = IndexOutOfRange

text \<open>
  The removal of column \<open>col\<close> from every row:
  \<^verbatim>\<open>(*data)[row] = append((*data)[row][:col], (*data)[row][col+1:]...)\<close>.
  The slice expression \<^verbatim>\<open>[col+1:]\<close> panics when \<open>col + 1\<close> exceeds the length of the row.
\<close>

fun FormatData_remove_col :: "nat \<Rightarrow> 'a list list \<Rightarrow> panic + 'a list list" where
  "FormatData_remove_col col [] = Inr []"
| "FormatData_remove_col col (r # rs) =
     (if col < length r
      then (case FormatData_remove_col col rs of
              Inl e \<Rightarrow> Inl e
            | Inr rs' \<Rightarrow> Inr ((take col r @ drop (col + 1) r) # rs'))
      else Inl IndexOutOfRange)"

text \<open>
  The inner loop over the rows for a column with a value to match. After the removal of
  row \<open>row\<close> the source decrements the cursor and the loop header increments it again:
  the cursor stays where it is.
\<close>

function FormatData_rows ::
  "('a \<Rightarrow> string) \<Rightarrow> nat \<Rightarrow> string \<Rightarrow> nat \<Rightarrow> 'a list list \<Rightarrow> panic + 'a list list" where
  "FormatData_rows Sprint col flt row data =
     (if row < length data
      then if col < length (data ! row)
           then if Sprint (data ! row ! col) \<noteq> flt
                then FormatData_rows Sprint col flt row (take row data @ drop (row + 1) data)
                else FormatData_rows Sprint col flt (row + 1) data
           else Inl IndexOutOfRange
      else Inr data)"
  by pat_completeness auto
termination
  by (relation "measure (\<lambda>(Sprint, col, flt, row, data). length data - row)") auto

declare FormatData_rows.simps [simp del]

text \<open>The outer loop over the columns, with the same treatment of the cursor.\<close>

function FormatData_cols ::
  "('a \<Rightarrow> string) \<Rightarrow> (string \<times> string) list \<Rightarrow> nat \<Rightarrow> 'a list list \<Rightarrow> string list
     \<Rightarrow> panic + ('a list list \<times> string list)" where
  "FormatData_cols Sprint formatFilters col data header =
     (if col < length header
      then (case map_of formatFilters (header ! col) of
              None \<Rightarrow>
                (case FormatData_remove_col col data of
                   Inl e \<Rightarrow> Inl e
                 | Inr data' \<Rightarrow>
                     FormatData_cols Sprint formatFilters col data'
                       (take col header @ drop (col + 1) header))
            | Some flt \<Rightarrow>
                if flt \<noteq> []
                then (case FormatData_rows Sprint col flt 0 data of
                        Inl e \<Rightarrow> Inl e
                      | Inr data' \<Rightarrow> FormatData_cols Sprint formatFilters (col + 1) data' header)
                else FormatData_cols Sprint formatFilters (col + 1) data header)
      else Inr (data, header))"
  by pat_completeness auto
termination
  by (relation "measure (\<lambda>(Sprint, formatFilters, col, data, header). length header - col)")
    auto

declare FormatData_cols.simps [simp del]

definition FormatData ::
  "('a \<Rightarrow> string) \<Rightarrow> 'a list list \<Rightarrow> string list \<Rightarrow> (string \<times> string) list
     \<Rightarrow> panic + ('a list list \<times> string list)" where
  "FormatData Sprint data header formatFilters =
     (if length formatFilters = 0 then Inr (data, header)
      else FormatData_cols Sprint formatFilters 0 data header)"

text \<open>
  Cells for concrete tables: numbers (of a type \<open>'n\<close>) and text. \<^verbatim>\<open>fmt.Sprint\<close> prints
  text as it is and an integer in decimal.
\<close>

datatype 'n cell = Num 'n | Txt string

fun digits :: "nat \<Rightarrow> nat \<Rightarrow> string" where
  "digits 0 n = []"
| "digits (Suc fuel) n =
     (if n < 10 then [''0123456789'' ! n]
      else digits fuel (n div 10) @ [''0123456789'' ! (n mod 10)])"

fun Sprint_cell :: "int cell \<Rightarrow> string" where
  "Sprint_cell (Txt s) = s"
| "Sprint_cell (Num i) =
     (if i < 0 then ''-'' @ digits (nat (- i) + 1) (nat (- i)) else digits (nat i + 1) (nat i))"

text \<open>
  What the projector is to produce, written with selection instead of deletion: the
  columns named by a rule, and the rows whose cell under every retained column with a
  value agrees with that value.
\<close>

definition keep_col :: "(string \<times> string) list \<Rightarrow> string \<Rightarrow> bool" where
  "keep_col formatFilters name = (map_of formatFilters name \<noteq> None)"

definition project_row :: "(string \<times> string) list \<Rightarrow> string list \<Rightarrow> 'a list \<Rightarrow> 'a list" where
  "project_row formatFilters header r =
     map snd (filter (\<lambda>(name, c). keep_col formatFilters name) (zip header r))"

definition cell_ok :: "('a \<Rightarrow> string) \<Rightarrow> (string \<times> string) list \<Rightarrow> string \<times> 'a \<Rightarrow> bool" where
  "cell_ok Sprint formatFilters p =
     (case map_of formatFilters (fst p) of
        None \<Rightarrow> True
      | Some flt \<Rightarrow> flt = [] \<or> Sprint (snd p) = flt)"

definition row_ok ::
  "('a \<Rightarrow> string) \<Rightarrow> (string \<times> string) list \<Rightarrow> string list \<Rightarrow> 'a list \<Rightarrow> bool" where
  "row_ok Sprint formatFilters header r = list_all (cell_ok Sprint formatFilters) (zip header r)"

text \<open>
  The steps of the loop body of \<^verbatim>\<open>ParseFilterParameters\<close> on one token, named for use
  in statements: the name and the value it splits into, and the exit it takes, if any.
\<close>

definition filterName_of :: "string \<Rightarrow> string" where
  "filterName_of v = strings_ToLower (strings_SplitN2 v (CHR ''='') ! 0)"

definition filterValue_of :: "string \<Rightarrow> string" where
  "filterValue_of v = strings_SplitN2 v (CHR ''='') ! 1"

definition token_exit :: "string list \<Rightarrow> string \<Rightarrow> exit option" where
  "token_exit filterNames v =
     (if \<not> strings_Contains v ''='' then Some WrongInputFormat
      else if filterName_of v \<notin> set filterNames then Some (FilterNotValid (filterName_of v))
      else if filterName_of v = ''status'' \<and> filterValue_of v \<notin> set (GetRunStatuses True)
        then Some (StatusNotValid (filterValue_of v))
      else None)"

section \<open>cmd: job logs\<close>

text \<open>The structs \<^verbatim>\<open>jobLogItem\<close> and \<^verbatim>\<open>logs\<close>; a pointer that may be nil is an option.\<close>

record jobLogItem =
  WorkflowUuid :: string
  JobName :: string
  ComputeBackend :: string
  BackendJobId :: string
  DockerImg :: string
  Cmd :: string
  Status :: string
  Logs :: string
  StartedAt :: "string option"
  FinishedAt :: "string option"


text \<open>
  \<^verbatim>\<open>filterJobLogs\<close> first turns every item into a \<^verbatim>\<open>map[string]string\<close> by writing it as
  JSON and reading it back: the keys are the \<^verbatim>\<open>json\<close> tags of the struct, and a nil
  pointer, written as \<^verbatim>\<open>null\<close>, reads back as the empty string. Neither step fails on a
  struct of strings, so the two error returns of the source are never taken.
\<close>

definition jobLogItem_json :: "jobLogItem \<Rightarrow> (string \<times> string) list" where
  "jobLogItem_json j =
     [(''workflow_uuid'', WorkflowUuid j),
      (''job_name'', JobName j),
      (''compute_backend'', ComputeBackend j),
      (''backend_job_id'', BackendJobId j),
      (''docker_img'', DockerImg j),
      (''cmd'', Cmd j),
      (''status'', Status j),
      (''logs'', Logs j),
      (''started_at'', (case StartedAt j of None \<Rightarrow> [] | Some t \<Rightarrow> t)),
      (''finished_at'', (case FinishedAt j of None \<Rightarrow> [] | Some t \<Rightarrow> t))]"

text \<open>
  Modelled from the spec: the type \<^verbatim>\<open>Filters\<close> of the package \<^verbatim>\<open>filterer\<close> is not among
  the sources. By the spec a FilterSpec owns two mappings keyed by the normalised key
  name, one from a single-valued key to its one value and one from a multi-valued key to
  its sequence of values, beside the two declared key sets, of which \<^verbatim>\<open>filterJobLogs\<close>
  reads \<^verbatim>\<open>SingleFilterKeys\<close>.
\<close>

record Filters =
  SingleFilterKeys :: "string list"
  MultiFilterKeys :: "string list"
  singleFilters :: "(string \<times> string) list"
  multiFilters :: "(string \<times> string list) list"

text \<open>
  Modelled from the spec: the method \<^verbatim>\<open>GetSingle\<close> of \<^verbatim>\<open>Filters\<close> is not among the sources.
  It returns the value recorded under a single-valued key, which is the empty string for
  a key without an assignment (the spec speaks of a local filter key with a non-empty
  value as the active one). \<^verbatim>\<open>filterJobLogs\<close> drops the error that \<^verbatim>\<open>GetSingle\<close> returns
  beside the value.
\<close>

definition GetSingle :: "Filters \<Rightarrow> string \<Rightarrow> string" where
  "GetSingle filters key = lookup_str (singleFilters filters) key"

text \<open>
  The value a record is compared with under one filter key (the first two statements of
  the inner loop body). The table \<^verbatim>\<open>config.ReanaComputeBackends\<close> is not among the
  sources and is the parameter \<open>ReanaComputeBackends\<close>.
\<close>

definition filterValue_for :: "(string \<times> string) list \<Rightarrow> Filters \<Rightarrow> string \<Rightarrow> string" where
  "filterValue_for ReanaComputeBackends filters filterKey =
     (let filterValue = GetSingle filters filterKey
      in if filterKey = ''compute_backend''
         then lookup_str ReanaComputeBackends (strings_ToLower filterValue)
         else filterValue)"

text \<open>The inner loop over the filter keys: true when it reaches the \<^verbatim>\<open>append\<close> and \<^verbatim>\<open>break\<close>.\<close>

fun filterJobLogs_unwanted ::
  "(string \<times> string) list \<Rightarrow> Filters \<Rightarrow> (string \<times> string) list \<Rightarrow> string list \<Rightarrow> bool" where
  "filterJobLogs_unwanted ReanaComputeBackends filters jobLogValue [] = False"
| "filterJobLogs_unwanted ReanaComputeBackends filters jobLogValue (filterKey # rest) =
     (let filterValue = filterValue_for ReanaComputeBackends filters filterKey
      in if filterValue \<noteq> [] \<and> lookup_str jobLogValue filterKey \<noteq> filterValue then True
         else filterJobLogs_unwanted ReanaComputeBackends filters jobLogValue rest)"

text \<open>The outer loop over the job logs, collecting \<^verbatim>\<open>unwantedLogs\<close>.\<close>

fun filterJobLogs_collect ::
  "(string \<times> string) list \<Rightarrow> Filters \<Rightarrow> (string \<times> (string \<times> string) list) list
     \<Rightarrow> string list" where
  "filterJobLogs_collect ReanaComputeBackends filters [] = []"
| "filterJobLogs_collect ReanaComputeBackends filters ((jobLogKey, jobLogValue) # rest) =
     (if filterJobLogs_unwanted ReanaComputeBackends filters jobLogValue
           (SingleFilterKeys filters)
      then jobLogKey # filterJobLogs_collect ReanaComputeBackends filters rest
      else filterJobLogs_collect ReanaComputeBackends filters rest)"

text \<open>
  \<^verbatim>\<open>filterJobLogs\<close>: the map it was given, after the final loop of deletions. The error
  it returns is always nil.
\<close>

definition filterJobLogs ::
  "(string \<times> string) list \<Rightarrow> (string \<times> jobLogItem) list \<Rightarrow> Filters
     \<Rightarrow> (string \<times> jobLogItem) list" where
  "filterJobLogs ReanaComputeBackends jobLogs filters =
     (let jobLogsMap = map (\<lambda>(jobLogKey, item). (jobLogKey, jobLogItem_json item)) jobLogs;
          unwantedLogs = filterJobLogs_collect ReanaComputeBackends filters jobLogsMap
      in foldl (\<lambda>m log. AList.delete log m) jobLogs unwantedLogs)"

text \<open>
  What the display functions are called with, in order. The package \<^verbatim>\<open>displayer\<close> and the
  constant \<^verbatim>\<open>config.LeadingMark\<close> are not among the sources: a call is recorded with its
  arguments (the text, and the colours, the kind of message, the indentation flag and the
  stream it goes to), and the mark is the parameter \<open>LeadingMark\<close>.
\<close>

datatype colour = BoldYellow | BoldOfStatus string | OfStatus string

datatype message_type = Info | Error











text \<open>
  Concrete values for the instances that follow the theorems: a job that ran on the
  backend \<open>k8s\<close>, the filters of an invocation with \<^verbatim>\<open>--filter compute_backend=v\<close>, and
  the same job under another step name.
\<close>

definition k8s_job :: jobLogItem where
  "k8s_job =
     \<lparr>WorkflowUuid = ''w1'', JobName = ''fit'', ComputeBackend = ''k8s'', BackendJobId = ''b1'',
      DockerImg = ''python:3.8'', Cmd = ''python fit.py'', Status = ''finished'',
      Logs = ''done'', StartedAt = None, FinishedAt = None\<rparr>"

definition backend_filter :: "string \<Rightarrow> Filters" where
  "backend_filter v =
     \<lparr>SingleFilterKeys = [''compute_backend'', ''docker_img'', ''status''],
      MultiFilterKeys = [''step''],
      singleFilters = [(''compute_backend'', v)],
      multiFilters = []\<rparr>"


section \<open>cmd: disk usage\<close>







section \<open>Properties of the column projector\<close>

subsection \<open>The two inner loops\<close>

lemma remove_col_aligned:
  "\<forall>r\<in>set data. col < length r \<Longrightarrow>
   FormatData_remove_col col data = Inr (map (\<lambda>r. take col r @ drop (Suc col) r) data)"
  by (induction data) auto

lemma rows_from:
  "\<forall>r\<in>set (drop row data). col < length r \<Longrightarrow>
   FormatData_rows Sprint col flt row data =
     Inr (take row data @ filter (\<lambda>r. Sprint (r ! col) = flt) (drop row data))"
proof (induction Sprint col flt row data rule: FormatData_rows.induct)
  case (1 Sprint col flt row data)
  show ?case
  proof (cases "row < length data")
    case False
    then show ?thesis by (simp add: FormatData_rows.simps)
  next
    case True
    then have split: "drop row data = data ! row # drop (Suc row) data"
      by (simp add: Cons_nth_drop_Suc)
    with "1.prems" have here: "col < length (data ! row)"
      and rest: "\<forall>r\<in>set (drop (Suc row) data). col < length r"
      by simp_all
    show ?thesis
    proof (cases "Sprint (data ! row ! col) = flt")
      case True
      from "1.IH"(2) [OF \<open>row < length data\<close> here] True rest
      have "FormatData_rows Sprint col flt (row + 1) data =
              Inr (take (row + 1) data @ filter (\<lambda>r. Sprint (r ! col) = flt) (drop (row + 1) data))"
        by simp
      with True \<open>row < length data\<close> here split show ?thesis
        by (subst FormatData_rows.simps) (simp add: take_Suc_conv_app_nth)
    next
      case False
      let ?d = "take row data @ drop (row + 1) data"
      from \<open>row < length data\<close> have d: "drop row ?d = drop (Suc row) data" "take row ?d = take row data"
        by simp_all
      from "1.IH"(1) [OF \<open>row < length data\<close> here] False rest d
      have "FormatData_rows Sprint col flt row ?d =
              Inr (take row data @ filter (\<lambda>r. Sprint (r ! col) = flt) (drop (Suc row) data))"
        by simp
      with False \<open>row < length data\<close> here split show ?thesis
        by (subst FormatData_rows.simps) simp
    qed
  qed
qed


lemma project_row_Nil [simp]: "project_row ff [] r = []"
  by (simp add: project_row_def)

lemma project_row_Cons [simp]:
  "project_row ff (h # hs) (c # cs) =
     (if keep_col ff h then c # project_row ff hs cs else project_row ff hs cs)"
  by (simp add: project_row_def)

lemma row_ok_Nil [simp]: "row_ok Sprint ff [] r"
  by (simp add: row_ok_def)

lemma row_ok_Cons [simp]:
  "row_ok Sprint ff (h # hs) (c # cs) = (cell_ok Sprint ff (h, c) \<and> row_ok Sprint ff hs cs)"
  by (simp add: row_ok_def)

lemma cols_aligned:
  "\<forall>r\<in>set data. length r = length header \<Longrightarrow>
   FormatData_cols Sprint ff col data header =
     Inr (map (\<lambda>r. take col r @ project_row ff (drop col header) (drop col r))
            (filter (\<lambda>r. row_ok Sprint ff (drop col header) (drop col r)) data),
          take col header @ filter (keep_col ff) (drop col header))"
proof (induction Sprint ff col data header rule: FormatData_cols.induct)
  case (1 Sprint ff col data header)
  note al = "1.prems"
  show ?case
  proof (cases "col < length header")
    case False
    with al have "map (\<lambda>r. take col r @ project_row ff (drop col header) (drop col r))
            (filter (\<lambda>r. row_ok Sprint ff (drop col header) (drop col r)) data) = data"
      by (simp add: map_idI)
    with False show ?thesis
      by (subst FormatData_cols.simps) simp
  next
    case True
    let ?h = "header ! col" and ?hs = "drop (Suc col) header"
    from True have hd: "drop col header = ?h # ?hs"
      by (simp add: Cons_nth_drop_Suc)
    have rd: "drop col r = r ! col # drop (Suc col) r" if "r \<in> set data" for r
      using that al True by (simp add: Cons_nth_drop_Suc)
    have inrange: "\<forall>r\<in>set data. col < length r"
      using al True by simp
    show ?thesis
    proof (cases "map_of ff ?h")
      case None
      let ?rm = "\<lambda>r::'a list. take col r @ drop (Suc col) r"
      have nokeep: "\<not> keep_col ff ?h"
        by (simp add: keep_col_def None)
      let ?header1 = "take col header @ drop (col + 1) header"
      have rmc: "FormatData_remove_col col data = Inr (map ?rm data)"
        using inrange by (rule remove_col_aligned)
      have al1: "\<forall>r\<in>set (map ?rm data). length r = length ?header1"
        using al True by auto
      have h1: "drop col ?header1 = ?hs" "take col ?header1 = take col header"
        using True by simp_all
      have r1: "drop col (?rm r) = drop (Suc col) r" "take col (?rm r) = take col r"
        if "r \<in> set data" for r
        using that inrange by simp_all
      from "1.IH"(1) [OF True None rmc al1]
      have "FormatData_cols Sprint ff col (map ?rm data) ?header1 =
              Inr (map (\<lambda>r. take col r @ project_row ff ?hs (drop col r))
                     (filter (\<lambda>r. row_ok Sprint ff ?hs (drop col r)) (map ?rm data)),
                   take col header @ filter (keep_col ff) ?hs)"
        by (simp only: h1)
      also have "filter (\<lambda>r. row_ok Sprint ff ?hs (drop col r)) (map ?rm data) =
                 map ?rm (filter (\<lambda>r. row_ok Sprint ff (drop col header) (drop col r)) data)"
        unfolding filter_map o_def
        using inrange
        by (intro arg_cong [where f = "map ?rm"] filter_cong)
          (auto simp: rd hd cell_ok_def None)
      also have "map (\<lambda>r. take col r @ project_row ff ?hs (drop col r)) \<dots> =
                 map (\<lambda>r. take col r @ project_row ff (drop col header) (drop col r))
                   (filter (\<lambda>r. row_ok Sprint ff (drop col header) (drop col r)) data)"
        unfolding map_map o_def
        using inrange by (intro map_cong) (auto simp: rd hd nokeep)
      finally show ?thesis
        using True None rmc hd nokeep
        by (subst FormatData_cols.simps) simp
    next
      case (Some flt)
      have keep: "keep_col ff ?h"
        by (simp add: keep_col_def Some)
      have tk: "take (Suc col) r = take col r @ [r ! col]" if "r \<in> set data" for r
        using that inrange by (simp add: take_Suc_conv_app_nth)
      have tkh: "take (Suc col) header = take col header @ [?h]"
        using True by (simp add: take_Suc_conv_app_nth)
      show ?thesis
      proof (cases "flt = []")
        case True
        from "1.IH"(3) [OF \<open>col < length header\<close> Some _ al] True
        have "FormatData_cols Sprint ff (col + 1) data header =
              Inr (map (\<lambda>r. take (Suc col) r @ project_row ff ?hs (drop (Suc col) r))
                     (filter (\<lambda>r. row_ok Sprint ff ?hs (drop (Suc col) r)) data),
                   take (Suc col) header @ filter (keep_col ff) ?hs)"
          by simp
        also have "filter (\<lambda>r. row_ok Sprint ff ?hs (drop (Suc col) r)) data =
                   filter (\<lambda>r. row_ok Sprint ff (drop col header) (drop col r)) data"
          by (rule filter_cong) (auto simp: rd hd cell_ok_def Some True)
        also have "map (\<lambda>r. take (Suc col) r @ project_row ff ?hs (drop (Suc col) r)) \<dots> =
                   map (\<lambda>r. take col r @ project_row ff (drop col header) (drop col r))
                     (filter (\<lambda>r. row_ok Sprint ff (drop col header) (drop col r)) data)"
          by (rule map_cong) (auto simp: rd hd keep tk)
        finally show ?thesis
          using \<open>col < length header\<close> Some True hd keep tkh
          by (subst FormatData_cols.simps) simp
      next
        case False
        let ?data1 = "filter (\<lambda>r. Sprint (r ! col) = flt) data"
        have rws: "FormatData_rows Sprint col flt 0 data = Inr ?data1"
          using inrange rows_from [of 0 data col Sprint flt] by simp
        have al1: "\<forall>r\<in>set ?data1. length r = length header"
          using al by simp
        from "1.IH"(2) [OF \<open>col < length header\<close> Some False rws al1]
        have "FormatData_cols Sprint ff (col + 1) ?data1 header =
              Inr (map (\<lambda>r. take (Suc col) r @ project_row ff ?hs (drop (Suc col) r))
                     (filter (\<lambda>r. row_ok Sprint ff ?hs (drop (Suc col) r)) ?data1),
                   take (Suc col) header @ filter (keep_col ff) ?hs)"
          by simp
        also have "filter (\<lambda>r. row_ok Sprint ff ?hs (drop (Suc col) r)) ?data1 =
                   filter (\<lambda>r. row_ok Sprint ff (drop col header) (drop col r)) data"
          unfolding filter_filter
          by (rule filter_cong) (auto simp: rd hd cell_ok_def Some False)
        also have "map (\<lambda>r. take (Suc col) r @ project_row ff ?hs (drop (Suc col) r)) \<dots> =
                   map (\<lambda>r. take col r @ project_row ff (drop col header) (drop col r))
                     (filter (\<lambda>r. row_ok Sprint ff (drop col header) (drop col r)) data)"
          by (rule map_cong) (auto simp: rd hd keep tk)
        finally show ?thesis
          using \<open>col < length header\<close> Some False hd keep tkh rws
          by (subst FormatData_cols.simps) simp
      qed
    qed
  qed
qed


lemma remove_col_Inr:
  "FormatData_remove_col col data = Inr data' \<Longrightarrow>
   (\<forall>r\<in>set data. col < length r) \<and> data' = map (\<lambda>r. take col r @ drop (Suc col) r) data"
  by (induction data arbitrary: data') (auto split: if_splits sum.splits)


lemma rows_Inr_range:
  "FormatData_rows Sprint col flt row data = Inr data' \<Longrightarrow>
   \<forall>r\<in>set (drop row data). col < length r"
proof (induction Sprint col flt row data rule: FormatData_rows.induct)
  case (1 Sprint col flt row data)
  show ?case
  proof (cases "row < length data")
    case False
    then show ?thesis by simp
  next
    case True
    note inside = this
    then have split: "drop row data = data ! row # drop (Suc row) data"
      by (simp add: Cons_nth_drop_Suc)
    from "1.prems" inside have here: "col < length (data ! row)"
      by (subst (asm) FormatData_rows.simps) (simp split: if_splits)
    have "\<forall>r\<in>set (drop (Suc row) data). col < length r"
    proof (cases "Sprint (data ! row ! col) = flt")
      case True
      with "1.prems" inside here
      have "FormatData_rows Sprint col flt (row + 1) data = Inr data'"
        by (subst (asm) FormatData_rows.simps) simp
      from "1.IH"(2) [OF inside here _ this] True show ?thesis
        by simp
    next
      case False
      with "1.prems" inside here
      have "FormatData_rows Sprint col flt row (take row data @ drop (row + 1) data) = Inr data'"
        by (subst (asm) FormatData_rows.simps) simp
      from "1.IH"(1) [OF inside here False this] inside show ?thesis
        by simp
    qed
    with here split show ?thesis
      by simp
  qed
qed

lemma rows_Inr:
  assumes "FormatData_rows Sprint col flt 0 data = Inr data'"
  shows "(\<forall>r\<in>set data. col < length r) \<and> data' = filter (\<lambda>r. Sprint (r ! col) = flt) data"
proof -
  from rows_Inr_range [OF assms] have "\<forall>r\<in>set data. col < length r"
    by simp
  with rows_from [of 0 data col Sprint flt] assms show ?thesis
    by simp
qed

lemma cols_fixpoint:
  "\<forall>i. col \<le> i \<and> i < length h \<longrightarrow>
     (\<exists>flt. map_of ff (h ! i) = Some flt \<and>
        (flt = [] \<or> (\<forall>r\<in>set d. i < length r \<and> Sprint (r ! i) = flt))) \<Longrightarrow>
   FormatData_cols Sprint ff col d h = Inr (d, h)"
proof (induction Sprint ff col d h rule: FormatData_cols.induct)
  case (1 Sprint ff col d h)
  show ?case
  proof (cases "col < length h")
    case False
    then show ?thesis
      by (subst FormatData_cols.simps) simp
  next
    case True
    with "1.prems" obtain flt where flt: "map_of ff (h ! col) = Some flt"
      and ok: "flt = [] \<or> (\<forall>r\<in>set d. col < length r \<and> Sprint (r ! col) = flt)"
      by auto
    from "1.prems" have later: "\<forall>i. col + 1 \<le> i \<and> i < length h \<longrightarrow>
     (\<exists>flt. map_of ff (h ! i) = Some flt \<and>
        (flt = [] \<or> (\<forall>r\<in>set d. i < length r \<and> Sprint (r ! i) = flt)))"
      by simp
    show ?thesis
    proof (cases "flt = []")
      case True
      from "1.IH"(3) [OF \<open>col < length h\<close> flt _ later] True
      have "FormatData_cols Sprint ff (col + 1) d h = Inr (d, h)"
        by simp
      with \<open>col < length h\<close> flt True show ?thesis
        by (subst FormatData_cols.simps) simp
    next
      case False
      with ok have all: "\<forall>r\<in>set d. col < length r \<and> Sprint (r ! col) = flt"
        by simp
      then have "filter (\<lambda>r. Sprint (r ! col) = flt) d = d"
        by simp
      with all rows_from [of 0 d col Sprint flt]
      have rws: "FormatData_rows Sprint col flt 0 d = Inr d"
        by simp
      from "1.IH"(2) [OF \<open>col < length h\<close> flt False rws later]
      have "FormatData_cols Sprint ff (col + 1) d h = Inr (d, h)" .
      with \<open>col < length h\<close> flt False rws show ?thesis
        by (subst FormatData_cols.simps) simp
    qed
  qed
qed


lemma cols_Inr_settled:
  "FormatData_cols Sprint ff col data header = Inr (d', h') \<Longrightarrow>
   take col h' = take col header \<and>
   (\<forall>i. col \<le> i \<and> i < length h' \<longrightarrow>
      (\<exists>flt. map_of ff (h' ! i) = Some flt \<and>
         (flt = [] \<or> (\<forall>r\<in>set d'. i < length r \<and> Sprint (r ! i) = flt)))) \<and>
   (\<forall>r'\<in>set d'. \<exists>r\<in>set data. take col r' = take col r)"
proof (induction Sprint ff col data header arbitrary: d' h' rule: FormatData_cols.induct)
  case (1 Sprint ff col data header)
  show ?case
  proof (cases "col < length header")
    case False
    with "1.prems" have "d' = data" "h' = header"
      by (subst (asm) FormatData_cols.simps, simp)+
    with False show ?thesis
      by auto
  next
    case True
    note inside = this
    show ?thesis
    proof (cases "map_of ff (header ! col)")
      case None
      let ?header1 = "take col header @ drop (col + 1) header"
      from "1.prems" inside None obtain data1
        where rmc: "FormatData_remove_col col data = Inr data1"
          and rec: "FormatData_cols Sprint ff col data1 ?header1 = Inr (d', h')"
        by (subst (asm) FormatData_cols.simps) (simp split: sum.splits)
      from remove_col_Inr [OF rmc]
      have range: "\<forall>r\<in>set data. col < length r"
        and data1: "data1 = map (\<lambda>r. take col r @ drop (Suc col) r) data"
        by simp_all
      from "1.IH"(1) [OF inside None rmc rec]
      have a: "take col h' = take col ?header1"
        and b: "\<forall>i. col \<le> i \<and> i < length h' \<longrightarrow>
          (\<exists>flt. map_of ff (h' ! i) = Some flt \<and>
             (flt = [] \<or> (\<forall>r\<in>set d'. i < length r \<and> Sprint (r ! i) = flt)))"
        and c: "\<forall>r'\<in>set d'. \<exists>r\<in>set data1. take col r' = take col r"
        by blast+
      from a inside have "take col h' = take col header"
        by simp
      moreover have "\<forall>r'\<in>set d'. \<exists>r\<in>set data. take col r' = take col r"
      proof
        fix r' assume "r' \<in> set d'"
        with c obtain r1 where "r1 \<in> set data1" "take col r' = take col r1"
          by blast
        with data1 obtain r where "r \<in> set data" "r1 = take col r @ drop (Suc col) r"
          by auto
        with range \<open>take col r' = take col r1\<close> show "\<exists>r\<in>set data. take col r' = take col r"
          by (intro bexI [of _ r]) simp_all
      qed
      ultimately show ?thesis
        using b by blast
    next
      case (Some flt)
      have step: "take col h' = take col header \<and>
          (\<forall>i. col \<le> i \<and> i < length h' \<longrightarrow>
            (\<exists>flt. map_of ff (h' ! i) = Some flt \<and>
               (flt = [] \<or> (\<forall>r\<in>set d'. i < length r \<and> Sprint (r ! i) = flt)))) \<and>
          (\<forall>r'\<in>set d'. \<exists>r\<in>set data. take col r' = take col r)"
        if a: "take (Suc col) h' = take (Suc col) header"
          and b: "\<forall>i. Suc col \<le> i \<and> i < length h' \<longrightarrow>
            (\<exists>flt. map_of ff (h' ! i) = Some flt \<and>
               (flt = [] \<or> (\<forall>r\<in>set d'. i < length r \<and> Sprint (r ! i) = flt)))"
          and c: "\<forall>r'\<in>set d'. \<exists>r\<in>set data1. take (Suc col) r' = take (Suc col) r"
          and sub: "set data1 \<subseteq> set data"
          and here: "flt = [] \<or> (\<forall>r\<in>set data1. col < length r \<and> Sprint (r ! col) = flt)"
        for data1
      proof -
        from a have "take col (take (Suc col) h') = take col (take (Suc col) header)"
          by simp
        then have a': "take col h' = take col header"
          by (simp add: min_def)
        from a inside have "(take (Suc col) h') ! col = (take (Suc col) header) ! col"
          by simp
        then have hcol: "h' ! col = header ! col"
          by simp
        have c': "\<forall>r'\<in>set d'. \<exists>r\<in>set data. take col r' = take col r"
        proof
          fix r' assume "r' \<in> set d'"
          with c obtain r1 where r1: "r1 \<in> set data1" "take (Suc col) r' = take (Suc col) r1"
            by blast
          then have "take col (take (Suc col) r') = take col (take (Suc col) r1)"
            by simp
          then have "take col r' = take col r1"
            by (simp add: min_def)
          with r1 sub show "\<exists>r\<in>set data. take col r' = take col r"
            by blast
        qed
        have cell: "flt = [] \<or> (\<forall>r'\<in>set d'. col < length r' \<and> Sprint (r' ! col) = flt)"
        proof (cases "flt = []")
          case True
          then show ?thesis by simp
        next
          case False
          with here have all1: "\<forall>r\<in>set data1. col < length r \<and> Sprint (r ! col) = flt"
            by simp
          have "\<forall>r'\<in>set d'. col < length r' \<and> Sprint (r' ! col) = flt"
          proof
            fix r' assume "r' \<in> set d'"
            with c obtain r1 where r1: "r1 \<in> set data1" "take (Suc col) r' = take (Suc col) r1"
              by blast
            with all1 have ok1: "col < length r1" "Sprint (r1 ! col) = flt"
              by simp_all
            from r1(2) have "length (take (Suc col) r') = length (take (Suc col) r1)"
              by simp
            with ok1 have len: "col < length r'"
              by (simp add: min_def split: if_splits)
            from r1(2) have "take (Suc col) r' ! col = take (Suc col) r1 ! col"
              by simp
            then have "r' ! col = r1 ! col"
              by simp
            with len ok1 show "col < length r' \<and> Sprint (r' ! col) = flt"
              by simp
          qed
          then show ?thesis by simp
        qed
        have "\<exists>flt. map_of ff (h' ! i) = Some flt \<and>
               (flt = [] \<or> (\<forall>r\<in>set d'. i < length r \<and> Sprint (r ! i) = flt))"
          if "col \<le> i" "i < length h'" for i
        proof (cases "i = col")
          case True
          with hcol Some cell show ?thesis by simp
        next
          case False
          with that b show ?thesis by simp
        qed
        with a' c' show ?thesis by blast
      qed
      show ?thesis
      proof (cases "flt = []")
        case True
        with "1.prems" inside Some
        have rec: "FormatData_cols Sprint ff (col + 1) data header = Inr (d', h')"
          by (subst (asm) FormatData_cols.simps) simp
        from "1.IH"(3) [OF inside Some _ rec] True
        show ?thesis
          by (intro step [of data]) simp_all
      next
        case False
        with "1.prems" inside Some obtain data1
          where rws: "FormatData_rows Sprint col flt 0 data = Inr data1"
            and rec: "FormatData_cols Sprint ff (col + 1) data1 header = Inr (d', h')"
          by (subst (asm) FormatData_cols.simps) (simp split: sum.splits)
        from rows_Inr [OF rws]
        have "set data1 \<subseteq> set data"
          and "\<forall>r\<in>set data1. col < length r \<and> Sprint (r ! col) = flt"
          by auto
        with "1.IH"(2) [OF inside Some False rws rec]
        show ?thesis
          by (intro step [of data1]) simp_all
      qed
    qed
  qed
qed

subsection \<open>The selecting definitions, index by index\<close>

lemma keep_col_iff: "keep_col ff name \<longleftrightarrow> name \<in> fst ` set ff"
  by (simp add: keep_col_def map_of_eq_None_iff)

lemma project_row_nths:
  "length r = length header \<Longrightarrow>
   project_row ff header r = nths r {i. i < length header \<and> keep_col ff (header ! i)}"
proof (induction header arbitrary: r)
  case Nil
  then show ?case by simp
next
  case (Cons h hs)
  then obtain c cs where r: "r = c # cs" and len: "length cs = length hs"
    by (cases r) auto
  have "{j. Suc j < Suc (length hs) \<and> keep_col ff ((h # hs) ! Suc j)} =
        {i. i < length hs \<and> keep_col ff (hs ! i)}"
    by simp
  with Cons.IH [OF len] show ?case
    by (simp add: r nths_Cons)
qed

lemma row_ok_iff:
  "length r = length header \<Longrightarrow>
   row_ok Sprint ff header r \<longleftrightarrow>
     (\<forall>i<length header. \<forall>flt. map_of ff (header ! i) = Some flt \<and> flt \<noteq> []
        \<longrightarrow> Sprint (r ! i) = flt)"
  by (auto simp: row_ok_def list_all_length cell_ok_def split: option.splits)

subsection \<open>The claims on the projector\<close>

text \<open>
  C1. For every header, every row matrix whose rows are as long as the header, and every
  rule set that is not empty, \<open>FormatData\<close> returns (without a panic) the header
  restricted, in its order, to the columns the rule set names, and the rows restricted to
  those whose printed cell under every retained column with a value equals that value,
  each row losing its cells at the positions of the removed columns. No column and no row
  is skipped after a removal: the result is the selection itself. By \<open>keep_col_iff\<close>,
  \<open>project_row_nths\<close> and \<open>row_ok_iff\<close> the selection is the one by position. The two
  tables of the claim are the concrete instances that follow the theorem.
\<close>

theorem FormatData_selects:
  assumes "\<forall>r\<in>set data. length r = length header" and "formatFilters \<noteq> []"
  shows "FormatData Sprint data header formatFilters =
           Inr (map (project_row formatFilters header)
                  (filter (row_ok Sprint formatFilters header) data),
                filter (keep_col formatFilters) header)"
  using assms cols_aligned [of data header Sprint formatFilters 0]
  by (simp add: FormatData_def)

theorem FormatData_selects_examples:
  "FormatData Sprint_cell [[Num 1, Num 2, Num 3], [Num 4, Num 5, Num 6]]
     [''A'', ''B'', ''C''] [(''B'', '''')] = Inr ([[Num 2], [Num 5]], [''B'']) \<and>
   FormatData Sprint_cell [[Txt ''x'', Txt ''failed''], [Txt ''y'', Txt ''finished'']]
     [''NAME'', ''STATUS''] [(''NAME'', ''''), (''STATUS'', ''failed'')] =
     Inr ([[Txt ''x'', Txt ''failed'']], [''NAME'', ''STATUS''])"
  using
    FormatData_selects [of "[[Num 1, Num 2, Num 3], [Num 4, Num 5, Num 6]]"
      "[''A'', ''B'', ''C'']" "[(''B'', '''')]" Sprint_cell]
    FormatData_selects [of "[[Txt ''x'', Txt ''failed''], [Txt ''y'', Txt ''finished'']]"
      "[''NAME'', ''STATUS'']" "[(''NAME'', ''''), (''STATUS'', ''failed'')]" Sprint_cell]
  by (simp add: project_row_def row_ok_def keep_col_def cell_ok_def)

text \<open>
  C6. The projector is idempotent: whenever \<open>FormatData\<close> returns a table, a second run
  with the same rule set on that table returns it unchanged. This holds for every header,
  row matrix and rule set (a run that panics on a row shorter than the header returns no
  table to run on), and on a matrix whose rows are as long as the header the first run
  does return a table.
\<close>

theorem FormatData_idempotent:
  "(FormatData Sprint data header ff = Inr (d', h') \<longrightarrow>
      FormatData Sprint d' h' ff = Inr (d', h')) \<and>
   ((\<forall>r\<in>set data. length r = length header) \<longrightarrow>
      (\<exists>d h. FormatData Sprint data header ff = Inr (d, h)))"
proof (intro conjI impI)
  assume first: "FormatData Sprint data header ff = Inr (d', h')"
  show "FormatData Sprint d' h' ff = Inr (d', h')"
  proof (cases "ff = []")
    case True
    then show ?thesis by (simp add: FormatData_def)
  next
    case False
    with first have "FormatData_cols Sprint ff 0 data header = Inr (d', h')"
      by (simp add: FormatData_def)
    from cols_Inr_settled [OF this]
    have "\<forall>i. 0 \<le> i \<and> i < length h' \<longrightarrow>
        (\<exists>flt. map_of ff (h' ! i) = Some flt \<and>
           (flt = [] \<or> (\<forall>r\<in>set d'. i < length r \<and> Sprint (r ! i) = flt)))"
      by blast
    from cols_fixpoint [OF this] False show ?thesis
      by (simp add: FormatData_def)
  qed
next
  assume "\<forall>r\<in>set data. length r = length header"
  from cols_aligned [OF this, of Sprint ff 0]
  show "\<exists>d h. FormatData Sprint data header ff = Inr (d, h)"
    by (simp add: FormatData_def)
qed

theorem FormatData_idempotent_example:
  "FormatData Sprint_cell [[Num 1, Txt ''failed'', Num 3], [Num 4, Txt ''finished'', Num 6]]
     [''RUN'', ''STATUS'', ''SIZE''] [(''STATUS'', ''failed''), (''SIZE'', '''')] =
     Inr ([[Txt ''failed'', Num 3]], [''STATUS'', ''SIZE'']) \<and>
   FormatData Sprint_cell [[Txt ''failed'', Num 3]] [''STATUS'', ''SIZE'']
     [(''STATUS'', ''failed''), (''SIZE'', '''')] =
     Inr ([[Txt ''failed'', Num 3]], [''STATUS'', ''SIZE''])"
proof -
  have first:
    "FormatData Sprint_cell [[Num 1, Txt ''failed'', Num 3], [Num 4, Txt ''finished'', Num 6]]
       [''RUN'', ''STATUS'', ''SIZE''] [(''STATUS'', ''failed''), (''SIZE'', '''')] =
     Inr ([[Txt ''failed'', Num 3]], [''STATUS'', ''SIZE''])"
    by (simp add: FormatData_def FormatData_cols.simps FormatData_rows.simps)
  from FormatData_idempotent [THEN conjunct1, THEN mp, OF first] first
  show ?thesis by (rule conjI [rotated])
qed

section \<open>Properties of filter parsing\<close>

subsection \<open>One token at a time\<close>

lemma Contains_single: "strings_Contains s [c] \<longleftrightarrow> c \<in> set s"
  by (induction s) auto

lemma Contains_prefix: "prefix v s \<Longrightarrow> strings_Contains s v"
  by (cases s) auto

lemma Contains_middle: "strings_Contains (a @ v @ b) v"
  by (induction a) (simp_all add: Contains_prefix)

lemma loop_Cons:
  "ParseFilterParameters_loop (v # rest) filterNames st se =
     (case token_exit filterNames v of
        Some e \<Rightarrow> Inl e
      | None \<Rightarrow>
          if filterName_of v = ''status''
          then ParseFilterParameters_loop rest filterNames (st @ [filterValue_of v]) se
          else ParseFilterParameters_loop rest filterNames st
                 (append_value se (filterName_of v) (filterValue_of v)))"
  by (simp add: token_exit_def filterName_of_def filterValue_of_def Let_def)

lemma loop_first_exit:
  "\<forall>u\<in>set pre. token_exit filterNames u = None \<Longrightarrow> token_exit filterNames v = Some e \<Longrightarrow>
   ParseFilterParameters_loop (pre @ v # post) filterNames st se = Inl e"
proof (induction pre arbitrary: st se)
  case Nil
  then show ?case by (simp add: loop_Cons del: ParseFilterParameters_loop.simps)
next
  case (Cons u pre)
  then show ?case by (simp add: loop_Cons del: ParseFilterParameters_loop.simps)
qed

lemma loop_all_pass:
  "\<forall>v\<in>set flt. token_exit filterNames v = None \<Longrightarrow>
   ParseFilterParameters_loop flt filterNames st se =
     Inr (st @ map filterValue_of (filter (\<lambda>v. filterName_of v = ''status'') flt),
          foldl (\<lambda>m v. append_value m (filterName_of v) (filterValue_of v)) se
            (filter (\<lambda>v. filterName_of v \<noteq> ''status'') flt))"
proof (induction flt arbitrary: st se)
  case Nil
  then show ?case by simp
next
  case (Cons v flt)
  then show ?case by (simp add: loop_Cons del: ParseFilterParameters_loop.simps)
qed

lemma loop_Inr_pass:
  "ParseFilterParameters_loop flt filterNames st se = Inr r \<Longrightarrow>
   \<forall>v\<in>set flt. token_exit filterNames v = None"
proof (induction flt arbitrary: st se)
  case Nil
  then show ?case by simp
next
  case (Cons v flt)
  show ?case
  proof (cases "token_exit filterNames v")
    case None
    with Cons.prems have "\<exists>st' se'. ParseFilterParameters_loop flt filterNames st' se' = Inr r"
      by (simp add: loop_Cons del: ParseFilterParameters_loop.simps split: if_splits) blast+
    with Cons.IH None show ?thesis by auto
  next
    case (Some e)
    with Cons.prems show ?thesis
      by (simp add: loop_Cons del: ParseFilterParameters_loop.simps)
  qed
qed

lemma Parse_Inl_iff:
  "ParseFilterParameters json_Marshal flt filterNames = Inl e \<longleftrightarrow>
   ParseFilterParameters_loop flt filterNames [] [] = Inl e"
  by (simp add: ParseFilterParameters_def split: sum.splits prod.splits)

lemma Parse_returns_iff:
  "(\<exists>r. ParseFilterParameters json_Marshal flt filterNames = Inr r) \<longleftrightarrow>
   (\<forall>v\<in>set flt. token_exit filterNames v = None)"
proof
  assume "\<exists>r. ParseFilterParameters json_Marshal flt filterNames = Inr r"
  then obtain r' where "ParseFilterParameters_loop flt filterNames [] [] = Inr r'"
    by (auto simp: ParseFilterParameters_def split: sum.splits)
  then show "\<forall>v\<in>set flt. token_exit filterNames v = None"
    by (rule loop_Inr_pass)
next
  assume "\<forall>v\<in>set flt. token_exit filterNames v = None"
  from loop_all_pass [OF this, of "[]" "[]"]
  show "\<exists>r. ParseFilterParameters json_Marshal flt filterNames = Inr r"
    by (simp add: ParseFilterParameters_def)
qed

lemma token_exit_None_iff:
  "token_exit filterNames v = None \<longleftrightarrow>
   strings_Contains v ''='' \<and> filterName_of v \<in> set filterNames \<and>
   (filterName_of v = ''status'' \<longrightarrow> filterValue_of v \<in> set (GetRunStatuses True))"
  by (simp add: token_exit_def)

lemma split_token:
  "CHR ''='' \<notin> set k \<Longrightarrow>
   strings_SplitN2 (k @ ''='' @ v) (CHR ''='') = [k, v]"
  by (induction k) (auto simp: strings_SplitN2_def)

subsection \<open>The collected search filters\<close>

lemma lookup_append_value:
  "lookup_list (append_value m k v) k' =
     (if k' = k then lookup_list m k @ [v] else lookup_list m k')"
  by (simp add: append_value_def lookup_list_def update_conv')

lemma map_of_append_value:
  "map_of (append_value m k v) k' =
     (if k' = k then Some (lookup_list m k @ [v]) else map_of m k')"
  by (simp add: append_value_def update_conv')

lemma distinct_append_value:
  "distinct (map fst m) \<Longrightarrow> distinct (map fst (append_value m k v))"
  by (simp add: append_value_def distinct_update)

lemma append_value_nonempty: "append_value m k v \<noteq> []"
  by (simp add: append_value_def)

lemma collect_lookup:
  "lookup_list (foldl (\<lambda>m v. append_value m (filterName_of v) (filterValue_of v)) se vs) k =
     lookup_list se k @ map filterValue_of (filter (\<lambda>v. filterName_of v = k) vs)"
  by (induction vs arbitrary: se) (simp_all add: lookup_append_value)

lemma collect_keys:
  "fst ` set (foldl (\<lambda>m v. append_value m (filterName_of v) (filterValue_of v)) se vs) =
     fst ` set se \<union> filterName_of ` set vs"
proof (induction vs arbitrary: se)
  case Nil
  then show ?case by simp
next
  case (Cons v vs)
  have "set (map fst (append_value se (filterName_of v) (filterValue_of v))) =
        insert (filterName_of v) (set (map fst se))"
    unfolding append_value_def update_keys by auto
  then have "fst ` set (append_value se (filterName_of v) (filterValue_of v)) =
        insert (filterName_of v) (fst ` set se)"
    by simp
  with Cons.IH show ?case by simp
qed

lemma collect_distinct:
  "distinct (map fst se) \<Longrightarrow>
   distinct (map fst (foldl (\<lambda>m v. append_value m (filterName_of v) (filterValue_of v)) se vs))"
  by (induction vs arbitrary: se) (simp_all add: distinct_append_value)

lemma collect_empty:
  "foldl (\<lambda>m v. append_value m (filterName_of v) (filterValue_of v)) se vs = [] \<longleftrightarrow>
   se = [] \<and> vs = []"
  by (induction vs arbitrary: se) (simp_all add: append_value_nonempty)

lemma map_of_lookup_list:
  "map_of m k = (if k \<in> fst ` set m then Some (lookup_list m k) else None)"
  by (cases "map_of m k") (auto simp: lookup_list_def map_of_eq_None_iff dest: map_of_SomeD
      intro: rev_image_eqI)

lemma Parse_all_pass:
  assumes "\<forall>v\<in>set flt. token_exit filterNames v = None"
  shows "ParseFilterParameters json_Marshal flt filterNames =
     Inr (map filterValue_of (filter (\<lambda>v. filterName_of v = ''status'') flt),
          let searchFilters =
                foldl (\<lambda>m v. append_value m (filterName_of v) (filterValue_of v)) []
                  (filter (\<lambda>v. filterName_of v \<noteq> ''status'') flt)
          in if searchFilters = [] then [] else json_Marshal searchFilters)"
  using loop_all_pass [OF assms, of "[]" "[]"]
  by (simp add: ParseFilterParameters_def Let_def)

subsection \<open>The claims on filter parsing\<close>

text \<open>
  C3, as stated, fails: the parse also stops on a \<open>status\<close> value outside the run
  statuses, so tokens that all hold an \<open>=\<close> and a declared key need not parse.
\<close>

theorem Parse_declared_keys_counterexample:
  "strings_Contains ''status=bogus'' ''='' \<and>
   filterName_of ''status=bogus'' \<in> set [''name'', ''status''] \<and>
   ParseFilterParameters json_plain [''status=bogus''] [''name'', ''status''] =
     Inl (StatusNotValid ''bogus'')"
  by (simp add: ParseFilterParameters_def filterName_of_def strings_SplitN2_def
      strings_ToLower_def lower_byte_def GetRunStatuses_def)

text \<open>
  C3, amended. \<open>ParseFilterParameters\<close> returns if and only if every token holds an \<open>=\<close>,
  its key in lower case is a declared name and, when that key is \<open>status\<close>, its value is
  a run status. Otherwise it exits, and at the first token that fails one of the three
  tests, wherever that token stands (\<open>pre\<close> and \<open>post\<close> are arbitrary): with the
  wrong-format message when the token holds no \<open>=\<close>, and with the message that names the
  key in lower case when the key is not declared.
\<close>

theorem Parse_returns_or_exits:
  "((\<exists>r. ParseFilterParameters json_Marshal flt filterNames = Inr r) \<longleftrightarrow>
      (\<forall>v\<in>set flt. strings_Contains v ''='' \<and> filterName_of v \<in> set filterNames \<and>
         (filterName_of v = ''status'' \<longrightarrow> filterValue_of v \<in> set (GetRunStatuses True)))) \<and>
   ((\<exists>v\<in>set flt. token_exit filterNames v \<noteq> None) \<longrightarrow>
      (\<exists>e. ParseFilterParameters json_Marshal flt filterNames = Inl e)) \<and>
   ((\<forall>u\<in>set pre. token_exit filterNames u = None) \<and> \<not> strings_Contains v ''='' \<longrightarrow>
      ParseFilterParameters json_Marshal (pre @ v # post) filterNames = Inl WrongInputFormat) \<and>
   ((\<forall>u\<in>set pre. token_exit filterNames u = None) \<and> strings_Contains v ''='' \<and>
      filterName_of v \<notin> set filterNames \<longrightarrow>
      ParseFilterParameters json_Marshal (pre @ v # post) filterNames =
        Inl (FilterNotValid (filterName_of v)) \<and>
      strings_Contains (exit_output (FilterNotValid (filterName_of v))) (filterName_of v))"
proof (intro conjI impI)
  show "(\<exists>r. ParseFilterParameters json_Marshal flt filterNames = Inr r) \<longleftrightarrow>
      (\<forall>v\<in>set flt. strings_Contains v ''='' \<and> filterName_of v \<in> set filterNames \<and>
         (filterName_of v = ''status'' \<longrightarrow> filterValue_of v \<in> set (GetRunStatuses True)))"
    by (simp only: Parse_returns_iff token_exit_None_iff)
next
  assume "\<exists>v\<in>set flt. token_exit filterNames v \<noteq> None"
  with Parse_returns_iff [of json_Marshal flt filterNames]
  have "\<not> (\<exists>r. ParseFilterParameters json_Marshal flt filterNames = Inr r)"
    by auto
  then show "\<exists>e. ParseFilterParameters json_Marshal flt filterNames = Inl e"
    by (cases "ParseFilterParameters json_Marshal flt filterNames") auto
next
  assume a: "(\<forall>u\<in>set pre. token_exit filterNames u = None) \<and> \<not> strings_Contains v ''=''"
  then have tok: "token_exit filterNames v = Some WrongInputFormat"
    by (simp add: token_exit_def)
  from a have pre: "\<forall>u\<in>set pre. token_exit filterNames u = None"
    by simp
  from loop_first_exit [OF pre tok, of post "[]" "[]"]
  show "ParseFilterParameters json_Marshal (pre @ v # post) filterNames = Inl WrongInputFormat"
    by (simp only: Parse_Inl_iff)
next
  assume a: "(\<forall>u\<in>set pre. token_exit filterNames u = None) \<and> strings_Contains v ''='' \<and>
      filterName_of v \<notin> set filterNames"
  then have tok: "token_exit filterNames v = Some (FilterNotValid (filterName_of v))"
    by (simp add: token_exit_def)
  from a have pre: "\<forall>u\<in>set pre. token_exit filterNames u = None"
    by simp
  from loop_first_exit [OF pre tok, of post "[]" "[]"]
  show "ParseFilterParameters json_Marshal (pre @ v # post) filterNames =
          Inl (FilterNotValid (filterName_of v))"
    by (simp only: Parse_Inl_iff)
next
  show "strings_Contains (exit_output (FilterNotValid (filterName_of v))) (filterName_of v)"
    using Contains_middle [of "''Error: Filter ''" "filterName_of v" "'' is not valid''"]
    by simp
qed

theorem Parse_returns_or_exits_example:
  "ParseFilterParameters json_plain [''name=x'', ''Colour=red'', ''noequals'']
     [''name'', ''status''] = Inl (FilterNotValid ''colour'') \<and>
   ParseFilterParameters json_plain [''name=x'', ''noequals'', ''Colour=red'']
     [''name'', ''status''] = Inl WrongInputFormat"
proof -
  have pre: "\<forall>u\<in>set [''name=x'']. token_exit [''name'', ''status''] u = None"
    by (simp add: token_exit_def filterName_of_def strings_SplitN2_def strings_ToLower_def
        lower_byte_def)
  have colour: "strings_Contains ''Colour=red'' ''='' \<and>
      filterName_of ''Colour=red'' \<notin> set [''name'', ''status'']"
    by (simp add: filterName_of_def strings_SplitN2_def strings_ToLower_def lower_byte_def)
  have name: "filterName_of ''Colour=red'' = ''colour''"
    by (simp add: filterName_of_def strings_SplitN2_def strings_ToLower_def lower_byte_def)
  have noeq: "\<not> strings_Contains ''noequals'' ''=''"
    by simp
  note inst = Parse_returns_or_exits [where json_Marshal = json_plain
      and filterNames = "[''name'', ''status'']" and pre = "[''name=x'']"]
  from inst [where v = "''Colour=red''" and post = "[''noequals'']"] pre colour name
  have first: "ParseFilterParameters json_plain [''name=x'', ''Colour=red'', ''noequals'']
     [''name'', ''status''] = Inl (FilterNotValid ''colour'')"
    by simp
  from inst [where v = "''noequals''" and post = "[''Colour=red'']"] pre noeq
  have "ParseFilterParameters json_plain [''name=x'', ''noequals'', ''Colour=red'']
     [''name'', ''status''] = Inl WrongInputFormat"
    by simp
  with first show ?thesis by (rule conjI)
qed

text \<open>
  C4, as stated, fails in one part: the message printed for a \<open>status\<close> value outside
  the run statuses names the value and nothing else; no run status occurs in it.
\<close>

theorem status_message_counterexample:
  "ParseFilterParameters json_plain [''status=bogus''] [''name'', ''status''] =
     Inl (StatusNotValid ''bogus'') \<and>
   exit_output (StatusNotValid ''bogus'') = ''Error: Input status value bogus is not valid. '' \<and>
   \<not> strings_Contains (exit_output (StatusNotValid ''bogus'')) ''created'' \<and>
   \<not> strings_Contains (exit_output (StatusNotValid ''bogus'')) ''running'' \<and>
   \<not> strings_Contains (exit_output (StatusNotValid ''bogus'')) ''finished'' \<and>
   \<not> strings_Contains (exit_output (StatusNotValid ''bogus'')) ''failed'' \<and>
   \<not> strings_Contains (exit_output (StatusNotValid ''bogus'')) ''stopped'' \<and>
   \<not> strings_Contains (exit_output (StatusNotValid ''bogus'')) ''queued'' \<and>
   \<not> strings_Contains (exit_output (StatusNotValid ''bogus'')) ''pending'' \<and>
   \<not> strings_Contains (exit_output (StatusNotValid ''bogus'')) ''deleted''"
  by (simp add: ParseFilterParameters_def strings_SplitN2_def strings_ToLower_def
      lower_byte_def GetRunStatuses_def)

text \<open>
  C4, amended. With \<open>status\<close> declared, take a token \<open>k=v\<close> whose key \<open>k\<close> reads
  \<open>status\<close> in lower case, after tokens that pass. If \<open>v\<close> is not a run status
  (\<open>deleted\<close> is one), \<open>ParseFilterParameters\<close> exits there with the message for an
  invalid status value, and the message names \<open>v\<close>. If \<open>v\<close> is a run status the token
  passes and \<open>v\<close> is recorded as the last status filter.
\<close>

theorem status_value_checked:
  assumes "''status'' \<in> set filterNames"
    and "\<forall>u\<in>set pre. token_exit filterNames u = None"
    and "CHR ''='' \<notin> set k" and "strings_ToLower k = ''status''"
  shows "(v \<notin> set (GetRunStatuses True) \<longrightarrow>
            ParseFilterParameters json_Marshal (pre @ (k @ ''='' @ v) # post) filterNames =
              Inl (StatusNotValid v) \<and>
            strings_Contains (exit_output (StatusNotValid v)) v) \<and>
         (v \<in> set (GetRunStatuses True) \<longrightarrow>
            token_exit filterNames (k @ ''='' @ v) = None \<and>
            (\<exists>st s. ParseFilterParameters json_Marshal (pre @ [k @ ''='' @ v]) filterNames =
               Inr (st @ [v], s))) \<and>
         ''deleted'' \<in> set (GetRunStatuses True)"
proof -
  let ?tok = "k @ ''='' @ v"
  from assms(3) have sp: "strings_SplitN2 ?tok (CHR ''='') = [k, v]"
    by (rule split_token)
  with assms(4) have nv: "filterName_of ?tok = ''status''" "filterValue_of ?tok = v"
    by (simp_all add: filterName_of_def filterValue_of_def)
  have eq: "strings_Contains ?tok ''=''"
    using Contains_middle [of k "''=''" v] by simp
  have bad: "ParseFilterParameters json_Marshal (pre @ ?tok # post) filterNames =
               Inl (StatusNotValid v) \<and>
             strings_Contains (exit_output (StatusNotValid v)) v"
    if "v \<notin> set (GetRunStatuses True)"
  proof
    from that eq nv assms(1) have "token_exit filterNames ?tok = Some (StatusNotValid v)"
      by (simp add: token_exit_def)
    from loop_first_exit [OF assms(2) this, of post "[]" "[]"]
    show "ParseFilterParameters json_Marshal (pre @ ?tok # post) filterNames =
            Inl (StatusNotValid v)"
      by (simp only: Parse_Inl_iff)
    show "strings_Contains (exit_output (StatusNotValid v)) v"
      using Contains_middle [of "''Error: Input status value ''" v "'' is not valid. ''"]
      by simp
  qed
  have good: "token_exit filterNames ?tok = None \<and>
      (\<exists>st s. ParseFilterParameters json_Marshal (pre @ [?tok]) filterNames = Inr (st @ [v], s))"
    if "v \<in> set (GetRunStatuses True)"
  proof
    from that eq nv assms(1) show ok: "token_exit filterNames ?tok = None"
      by (simp add: token_exit_def)
    with assms(2) have "\<forall>u\<in>set (pre @ [?tok]). token_exit filterNames u = None"
      by simp
    from Parse_all_pass [OF this, of json_Marshal] nv
    show "\<exists>st s. ParseFilterParameters json_Marshal (pre @ [?tok]) filterNames =
            Inr (st @ [v], s)"
      by simp
  qed
  have "''deleted'' \<in> set (GetRunStatuses True)"
    by (simp add: GetRunStatuses_def)
  with bad good show ?thesis by blast
qed

theorem status_value_checked_example:
  "ParseFilterParameters json_plain [''name=x'', ''STATUS=bogus'', ''name=y'']
     [''name'', ''status''] = Inl (StatusNotValid ''bogus'') \<and>
   (\<exists>st s. ParseFilterParameters json_plain [''name=x'', ''STATUS=deleted'']
     [''name'', ''status''] = Inr (st @ [''deleted''], s))"
proof -
  have declared: "''status'' \<in> set [''name'', ''status'']"
    by simp
  have pre: "\<forall>u\<in>set [''name=x'']. token_exit [''name'', ''status''] u = None"
    by (simp add: token_exit_def filterName_of_def strings_SplitN2_def strings_ToLower_def
        lower_byte_def)
  have key: "CHR ''='' \<notin> set ''STATUS''" "strings_ToLower ''STATUS'' = ''status''"
    by (simp_all add: strings_ToLower_def lower_byte_def)
  note inst = status_value_checked [OF declared pre key, where json_Marshal = json_plain]
  have "''bogus'' \<notin> set (GetRunStatuses True)" "''deleted'' \<in> set (GetRunStatuses True)"
    by (simp_all add: GetRunStatuses_def)
  with inst [where v = "''bogus''" and post = "[''name=y'']"] inst [where v = "''deleted''"]
  show ?thesis by simp
qed

text \<open>
  C5. Whenever \<open>ParseFilterParameters\<close> returns, the first result is the list of the
  values given to \<open>status\<close>, in the order of the input. The values of every other key
  (a declared one, since the parse returned) are collected in a map that sends a key to
  its values in the order of the input and holds no other key. The second result is the
  JSON text of that map if the map holds a key, that is if a token has a key other than
  \<open>status\<close>, and the empty string otherwise: an empty object is never marshalled.
\<close>

theorem Parse_partitions:
  assumes "ParseFilterParameters json_Marshal flt filterNames =
             Inr (statusFilters, searchFiltersString)"
  shows "statusFilters = map filterValue_of (filter (\<lambda>v. filterName_of v = ''status'') flt) \<and>
     (\<exists>searchFilters.
        distinct (map fst searchFilters) \<and>
        (\<forall>k. map_of searchFilters k =
           (if k \<noteq> ''status'' \<and> k \<in> filterName_of ` set flt
            then Some (map filterValue_of (filter (\<lambda>v. filterName_of v = k) flt))
            else None)) \<and>
        fst ` set searchFilters \<subseteq> set filterNames \<and>
        (searchFilters = [] \<longleftrightarrow> (\<forall>v\<in>set flt. filterName_of v = ''status'')) \<and>
        searchFiltersString = (if searchFilters = [] then [] else json_Marshal searchFilters))"
proof -
  let ?others = "filter (\<lambda>v. filterName_of v \<noteq> ''status'') flt"
  let ?m = "foldl (\<lambda>m v. append_value m (filterName_of v) (filterValue_of v)) [] ?others"
  from assms have pass: "\<forall>v\<in>set flt. token_exit filterNames v = None"
    using Parse_returns_iff [of json_Marshal flt filterNames] by blast
  from Parse_all_pass [OF this, of json_Marshal] assms
  have st: "statusFilters = map filterValue_of (filter (\<lambda>v. filterName_of v = ''status'') flt)"
    and str: "searchFiltersString = (if ?m = [] then [] else json_Marshal ?m)"
    by (simp_all add: Let_def)
  have keys: "fst ` set ?m = filterName_of ` set ?others"
    by (simp add: collect_keys)
  have dist: "distinct (map fst ?m)"
    by (rule collect_distinct) simp
  have content: "map_of ?m k =
           (if k \<noteq> ''status'' \<and> k \<in> filterName_of ` set flt
            then Some (map filterValue_of (filter (\<lambda>v. filterName_of v = k) flt))
            else None)" for k
  proof (cases "k \<noteq> ''status'' \<and> k \<in> filterName_of ` set flt")
    case True
    then have "k \<in> fst ` set ?m"
      unfolding keys by auto
    with map_of_lookup_list [of ?m k] have some: "map_of ?m k = Some (lookup_list ?m k)"
      by simp
    from True
    have "filter (\<lambda>v. filterName_of v = k) ?others = filter (\<lambda>v. filterName_of v = k) flt"
      by (auto intro: filter_cong)
    then have "lookup_list ?m k = map filterValue_of (filter (\<lambda>v. filterName_of v = k) flt)"
      by (simp only: collect_lookup) (simp add: lookup_list_def)
    with some True show ?thesis
      by simp
  next
    case False
    then have "k \<notin> fst ` set ?m"
      unfolding keys by auto
    with map_of_lookup_list [of ?m k] have "map_of ?m k = None"
      by simp
    with False show ?thesis
      by simp
  qed
  have declared: "fst ` set ?m \<subseteq> set filterNames"
    unfolding keys using pass by (auto simp: token_exit_None_iff)
  have empty: "?m = [] \<longleftrightarrow> (\<forall>v\<in>set flt. filterName_of v = ''status'')"
    by (simp add: collect_empty filter_empty_conv)
  from st str dist content declared empty show ?thesis
    by blast
qed

theorem Parse_partitions_example:
  "ParseFilterParameters json_plain
     [''status=failed'', ''name=x'', ''STATUS=running'', ''name=y''] [''name'', ''status''] =
     Inr ([''failed'', ''running''], json_plain [(''name'', [''x'', ''y''])]) \<and>
   [''failed'', ''running''] =
     map filterValue_of (filter (\<lambda>v. filterName_of v = ''status'')
       [''status=failed'', ''name=x'', ''STATUS=running'', ''name=y'']) \<and>
   ParseFilterParameters json_plain [''status=failed''] [''name'', ''status''] =
     Inr ([''failed''], [])"
proof -
  have run: "ParseFilterParameters json_plain
     [''status=failed'', ''name=x'', ''STATUS=running'', ''name=y''] [''name'', ''status''] =
     Inr ([''failed'', ''running''], json_plain [(''name'', [''x'', ''y''])])"
    by (simp add: ParseFilterParameters_def strings_SplitN2_def strings_ToLower_def
        lower_byte_def GetRunStatuses_def append_value_def lookup_list_def)
  have none: "ParseFilterParameters json_plain [''status=failed''] [''name'', ''status''] =
     Inr ([''failed''], [])"
    by (simp add: ParseFilterParameters_def strings_SplitN2_def strings_ToLower_def
        lower_byte_def GetRunStatuses_def)
  from Parse_partitions [OF run, THEN conjunct1] run none show ?thesis
    by blast
qed

section \<open>Properties of the local filter on job logs\<close>

lemma unwanted_iff:
  "filterJobLogs_unwanted B filters jobLogValue keys \<longleftrightarrow>
     (\<exists>filterKey\<in>set keys. filterValue_for B filters filterKey \<noteq> [] \<and>
        lookup_str jobLogValue filterKey \<noteq> filterValue_for B filters filterKey)"
  by (induction keys) (auto simp: Let_def)

lemma collect_eq:
  "filterJobLogs_collect B filters m =
     map fst (filter (\<lambda>p. filterJobLogs_unwanted B filters (snd p) (SingleFilterKeys filters)) m)"
  by (induction m) auto

lemma foldl_delete:
  "foldl (\<lambda>m log. AList.delete log m) al ks = filter (\<lambda>p. fst p \<notin> set ks) al"
proof (induction ks arbitrary: al)
  case Nil
  then show ?case by simp
next
  case (Cons k ks)
  have "AList.delete k al = filter (\<lambda>p. fst p \<noteq> k) al"
    by (induction al) auto
  with Cons.IH [of "AList.delete k al"] show ?case
    by (auto intro: filter_cong)
qed

lemma filterJobLogs_eq:
  "filterJobLogs B jobLogs filters =
     filter (\<lambda>p. fst p \<notin> set (filterJobLogs_collect B filters
        (map (\<lambda>(jobLogKey, item). (jobLogKey, jobLogItem_json item)) jobLogs))) jobLogs"
  by (simp add: filterJobLogs_def foldl_delete)

lemma collected_keys:
  "set (filterJobLogs_collect B filters
      (map (\<lambda>(jobLogKey, item). (jobLogKey, jobLogItem_json item)) jobLogs)) =
   {k. \<exists>item. (k, item) \<in> set jobLogs \<and>
         filterJobLogs_unwanted B filters (jobLogItem_json item) (SingleFilterKeys filters)}"
  by (force simp: collect_eq)

lemma map_of_filter_keys:
  "map_of (filter (\<lambda>p. fst p \<notin> K) al) k = (if k \<in> K then None else map_of al k)"
  by (induction al) auto

lemma filterValue_for_keys [simp]:
  "filterValue_for B (filters\<lparr>SingleFilterKeys := ks\<rparr>) key = filterValue_for B filters key"
  by (simp add: filterValue_for_def GetSingle_def)

lemma unwanted_keys [simp]:
  "filterJobLogs_unwanted B (filters\<lparr>SingleFilterKeys := ks\<rparr>) jobLogValue keys =
   filterJobLogs_unwanted B filters jobLogValue keys"
  by (simp add: unwanted_iff)

lemma field_of_key:
  "lookup_str (jobLogItem_json j) ''compute_backend'' = ComputeBackend j"
  "lookup_str (jobLogItem_json j) ''docker_img'' = DockerImg j"
  "lookup_str (jobLogItem_json j) ''status'' = Status j"
  by (simp_all add: lookup_str_def jobLogItem_json_def)

subsection \<open>The claims on the local filter\<close>

text \<open>
  C2. \<open>filterJobLogs\<close> removes a record if and only if, for some single-valued filter
  key, the value to compare with is not empty and the record's field of that name differs
  from it; the value to compare with is the filter value, and under the key
  \<open>compute_backend\<close> the filter value in lower case sent through the table of backends.
  One failing key removes the record, so the records that stay pass every active filter.
  The keys of the collection are distinct, as the keys of a Go map are. In the instance
  after the theorem the table knows both backends asked for (the client accepts no other
  value for \<open>compute_backend\<close>); C10 is about a value the table does not know.
\<close>

theorem filterJobLogs_removes_iff:
  assumes "distinct (map fst jobLogs)"
  shows "filterJobLogs B jobLogs filters =
           filter (\<lambda>(jobLogKey, item).
               \<not> (\<exists>filterKey\<in>set (SingleFilterKeys filters).
                     filterValue_for B filters filterKey \<noteq> [] \<and>
                     lookup_str (jobLogItem_json item) filterKey \<noteq>
                       filterValue_for B filters filterKey))
             jobLogs \<and>
         (\<forall>(jobLogKey, item)\<in>set jobLogs.
            (jobLogKey, item) \<notin> set (filterJobLogs B jobLogs filters) \<longleftrightarrow>
            (\<exists>filterKey\<in>set (SingleFilterKeys filters).
               filterValue_for B filters filterKey \<noteq> [] \<and>
               lookup_str (jobLogItem_json item) filterKey \<noteq>
                 filterValue_for B filters filterKey))"
proof -
  let ?fails = "\<lambda>item. \<exists>filterKey\<in>set (SingleFilterKeys filters).
                     filterValue_for B filters filterKey \<noteq> [] \<and>
                     lookup_str (jobLogItem_json item) filterKey \<noteq>
                       filterValue_for B filters filterKey"
  let ?U = "set (filterJobLogs_collect B filters
      (map (\<lambda>(jobLogKey, item). (jobLogKey, jobLogItem_json item)) jobLogs))"
  have key: "fst p \<notin> ?U \<longleftrightarrow> \<not> ?fails (snd p)" if "p \<in> set jobLogs" for p
  proof -
    obtain k item where p: "p = (k, item)"
      by (cases p)
    have "k \<in> ?U \<longleftrightarrow> ?fails item"
    proof
      assume "k \<in> ?U"
      then obtain item' where in': "(k, item') \<in> set jobLogs"
        and bad: "filterJobLogs_unwanted B filters (jobLogItem_json item')
                    (SingleFilterKeys filters)"
        unfolding collected_keys by blast
      from eq_key_imp_eq_value [OF assms in'] that p have "item' = item"
        by simp
      with bad show "?fails item"
        by (simp only: unwanted_iff)
    next
      assume "?fails item"
      then have "filterJobLogs_unwanted B filters (jobLogItem_json item)
                    (SingleFilterKeys filters)"
        by (simp only: unwanted_iff)
      with that p show "k \<in> ?U"
        unfolding collected_keys by blast
    qed
    with p show ?thesis by simp
  qed
  have eq: "filterJobLogs B jobLogs filters =
              filter (\<lambda>(jobLogKey, item). \<not> ?fails item) jobLogs"
    unfolding filterJobLogs_eq
    by (rule filter_cong) (auto simp: key split: prod.splits)
  moreover have "\<forall>(jobLogKey, item)\<in>set jobLogs.
            (jobLogKey, item) \<notin> set (filterJobLogs B jobLogs filters) \<longleftrightarrow> ?fails item"
    unfolding eq by auto
  ultimately show ?thesis by blast
qed

theorem filterJobLogs_removes_iff_example:
  "filterJobLogs [(''kubernetes'', ''k8s''), (''htcondor'', ''htcondorcern'')]
     [(''job1'', k8s_job)] (backend_filter ''kubernetes'') = [(''job1'', k8s_job)] \<and>
   filterJobLogs [(''kubernetes'', ''k8s''), (''htcondor'', ''htcondorcern'')]
     [(''job1'', k8s_job)] (backend_filter ''htcondor'') = []"
proof -
  have d: "distinct (map fst [(''job1'', k8s_job)])"
    by simp
  note inst = filterJobLogs_removes_iff [OF d,
      of "[(''kubernetes'', ''k8s''), (''htcondor'', ''htcondorcern'')]", THEN conjunct1]
  from inst [of "backend_filter ''kubernetes''"] inst [of "backend_filter ''htcondor''"]
  show ?thesis
    by (simp add: backend_filter_def filterValue_for_def GetSingle_def lookup_str_def
        strings_ToLower_def lower_byte_def jobLogItem_json_def k8s_job_def)
qed

text \<open>
  C9. \<open>filterJobLogs\<close> only deletes entries by key: what it returns is the collection it
  was given without the entries under some keys, so every record it returns is a record
  of the input, under the same key and with every field as it was.
\<close>

theorem filterJobLogs_only_deletes:
  "(\<exists>unwantedLogs. filterJobLogs B jobLogs filters =
       filter (\<lambda>p. fst p \<notin> set unwantedLogs) jobLogs) \<and>
   set (filterJobLogs B jobLogs filters) \<subseteq> set jobLogs \<and>
   (\<forall>jobLogKey item. map_of (filterJobLogs B jobLogs filters) jobLogKey = Some item \<longrightarrow>
      map_of jobLogs jobLogKey = Some item)"
proof (intro conjI allI impI)
  show "\<exists>unwantedLogs. filterJobLogs B jobLogs filters =
       filter (\<lambda>p. fst p \<notin> set unwantedLogs) jobLogs"
    using filterJobLogs_eq by blast
  show "set (filterJobLogs B jobLogs filters) \<subseteq> set jobLogs"
    unfolding filterJobLogs_eq by auto
  fix jobLogKey item
  assume "map_of (filterJobLogs B jobLogs filters) jobLogKey = Some item"
  then show "map_of jobLogs jobLogKey = Some item"
    unfolding filterJobLogs_eq map_of_filter_keys by (simp split: if_splits)
qed

theorem filterJobLogs_only_deletes_example:
  "map_of (filterJobLogs [(''kubernetes'', ''k8s''), (''htcondor'', ''htcondorcern'')]
     [(''job1'', k8s_job), (''job2'', k8s_job\<lparr>ComputeBackend := ''htcondorcern''\<rparr>)]
     (backend_filter ''kubernetes'')) ''job1'' = Some k8s_job \<and>
   map_of [(''job1'', k8s_job), (''job2'', k8s_job\<lparr>ComputeBackend := ''htcondorcern''\<rparr>)]
     ''job1'' = Some k8s_job \<and>
   map_of (filterJobLogs [(''kubernetes'', ''k8s''), (''htcondor'', ''htcondorcern'')]
     [(''job1'', k8s_job), (''job2'', k8s_job\<lparr>ComputeBackend := ''htcondorcern''\<rparr>)]
     (backend_filter ''kubernetes'')) ''job2'' = None"
proof -
  let ?B = "[(''kubernetes'', ''k8s''), (''htcondor'', ''htcondorcern'')]"
  let ?jobs = "[(''job1'', k8s_job), (''job2'', k8s_job\<lparr>ComputeBackend := ''htcondorcern''\<rparr>)]"
  have run: "filterJobLogs ?B ?jobs (backend_filter ''kubernetes'') = [(''job1'', k8s_job)]"
    by (simp add: filterJobLogs_def backend_filter_def filterValue_for_def GetSingle_def
        lookup_str_def strings_ToLower_def lower_byte_def jobLogItem_json_def k8s_job_def)
  then have kept: "map_of (filterJobLogs ?B ?jobs (backend_filter ''kubernetes'')) ''job1'' =
      Some k8s_job"
    and gone: "map_of (filterJobLogs ?B ?jobs (backend_filter ''kubernetes'')) ''job2'' = None"
    by simp_all
  from filterJobLogs_only_deletes [of ?B ?jobs "backend_filter ''kubernetes''"] kept
  have "map_of ?jobs ''job1'' = Some k8s_job"
    by blast
  with kept gone show ?thesis by blast
qed

text \<open>
  C10. When the \<open>compute_backend\<close> filter value, in lower case, has no entry in the table
  of backends, the value to compare with is the empty string and the filter is inactive:
  \<open>filterJobLogs\<close> returns what it returns without \<open>compute_backend\<close> among the filter
  keys, and returns the whole collection when that is the only key. No record is removed
  on account of that filter, and there is no error.
\<close>

theorem unknown_backend_inactive:
  assumes "map_of B (strings_ToLower (GetSingle filters ''compute_backend'')) = None"
  shows "filterValue_for B filters ''compute_backend'' = [] \<and>
         filterJobLogs B jobLogs filters =
           filterJobLogs B jobLogs
             (filters\<lparr>SingleFilterKeys :=
                removeAll ''compute_backend'' (SingleFilterKeys filters)\<rparr>) \<and>
         (set (SingleFilterKeys filters) \<subseteq> {''compute_backend''} \<longrightarrow>
            filterJobLogs B jobLogs filters = jobLogs)"
proof -
  from assms have inactive: "filterValue_for B filters ''compute_backend'' = []"
    by (simp add: filterValue_for_def lookup_str_def)
  have same: "filterJobLogs_unwanted B filters jv (removeAll ''compute_backend'' keys) =
              filterJobLogs_unwanted B filters jv keys" for jv keys
    using inactive by (auto simp: unwanted_iff)
  have "filterJobLogs_collect B
          (filters\<lparr>SingleFilterKeys := removeAll ''compute_backend'' (SingleFilterKeys filters)\<rparr>) m =
        filterJobLogs_collect B filters m" for m
    by (simp add: collect_eq same)
  then have without: "filterJobLogs B jobLogs filters =
           filterJobLogs B jobLogs
             (filters\<lparr>SingleFilterKeys :=
                removeAll ''compute_backend'' (SingleFilterKeys filters)\<rparr>)"
    by (simp add: filterJobLogs_eq)
  have "filterJobLogs B jobLogs filters = jobLogs"
    if "set (SingleFilterKeys filters) \<subseteq> {''compute_backend''}"
  proof -
    from that inactive
    have "\<not> filterJobLogs_unwanted B filters jv (SingleFilterKeys filters)" for jv
      by (auto simp: unwanted_iff)
    then have "filterJobLogs_collect B filters m = []" for m
      by (simp add: collect_eq)
    then show ?thesis
      by (simp add: filterJobLogs_eq)
  qed
  with inactive without show ?thesis by blast
qed

theorem unknown_backend_inactive_example:
  "filterJobLogs [(''kubernetes'', ''k8s'')] [(''job1'', k8s_job)] (backend_filter ''htcondor'') =
     filterJobLogs [(''kubernetes'', ''k8s'')] [(''job1'', k8s_job)]
       ((backend_filter ''htcondor'')\<lparr>SingleFilterKeys := [''docker_img'', ''status'']\<rparr>) \<and>
   filterJobLogs [(''kubernetes'', ''k8s'')] [(''job1'', k8s_job)] (backend_filter ''htcondor'') =
     [(''job1'', k8s_job)]"
proof -
  have unknown: "map_of [(''kubernetes'', ''k8s'')]
      (strings_ToLower (GetSingle (backend_filter ''htcondor'') ''compute_backend'')) = None"
    by (simp add: backend_filter_def GetSingle_def lookup_str_def strings_ToLower_def
        lower_byte_def)
  have keys: "removeAll ''compute_backend'' (SingleFilterKeys (backend_filter ''htcondor'')) =
      [''docker_img'', ''status'']"
    by (simp add: backend_filter_def)
  have rest: "filterJobLogs [(''kubernetes'', ''k8s'')] [(''job1'', k8s_job)]
       ((backend_filter ''htcondor'')\<lparr>SingleFilterKeys := [''docker_img'', ''status'']\<rparr>) =
     [(''job1'', k8s_job)]"
    by (simp add: filterJobLogs_def backend_filter_def filterValue_for_def GetSingle_def
        lookup_str_def)
  from unknown_backend_inactive [OF unknown, of "[(''job1'', k8s_job)]"] keys
  have "filterJobLogs [(''kubernetes'', ''k8s'')] [(''job1'', k8s_job)]
          (backend_filter ''htcondor'') =
        filterJobLogs [(''kubernetes'', ''k8s'')] [(''job1'', k8s_job)]
          ((backend_filter ''htcondor'')\<lparr>SingleFilterKeys := [''docker_img'', ''status'']\<rparr>)"
    by simp
  with rest show ?thesis by simp
qed

section \<open>Properties of the displays\<close>








end
